theory Spec2Isabelle
  imports Complex_Main "HOL-Library.AList"
begin

section \<open>Python values, exceptions and dictionaries\<close>

text \<open>
  The module \<^verbatim>\<open>agents/rag_agent/data_ingestion.py\<close> works on the values that
  \<^verbatim>\<open>json.load\<close>, \<^verbatim>\<open>pandas\<close> and \<^verbatim>\<open>PyPDF2\<close> hand to it. A float is never computed
  with: it is converted by \<^verbatim>\<open>str\<close> or passed through, so it is carried by its
  \<^verbatim>\<open>repr\<close> string. A string is a list of characters, each standing for one code point.
\<close>

datatype py_float = PyFloat string

datatype py_value =
    PNone
  | PBool bool
  | PInt int
  | PFloat py_float
  | PStr string
  | PList "py_value list"
  | PDict "(string \<times> py_value) list"

text \<open>
  A \<^verbatim>\<open>dict\<close> is an association list in insertion order; \<^verbatim>\<open>d[k] = v\<close> is
  \<^const>\<open>AList.update\<close> (an existing key keeps its position and takes the new value, a new
  key is appended), \<^verbatim>\<open>d[k]\<close> and \<^verbatim>\<open>k in d\<close> are \<^const>\<open>map_of\<close>.
\<close>

type_synonym py_dict = "(string \<times> py_value) list"

text \<open>
  Exceptions. \<open>LibraryError\<close> stands for whatever \<^verbatim>\<open>open\<close>, \<^verbatim>\<open>json.load\<close>,
  \<^verbatim>\<open>pd.read_csv\<close>, \<^verbatim>\<open>PdfReader\<close> or \<^verbatim>\<open>extract_text\<close> raise, carried by its message.
\<close>

datatype py_exn =
    FileNotFoundError string
  | ValueError string
  | IndexError string
  | KeyError string
  | LibraryError string

fun exn_str :: "py_exn \<Rightarrow> string" where
  "exn_str (FileNotFoundError m) = m"
| "exn_str (ValueError m) = m"
| "exn_str (IndexError m) = m"
| "exn_str (KeyError k) = [CHR 0x27] @ k @ [CHR 0x27]"
| "exn_str (LibraryError m) = m"

fun isinstance_str :: "py_value \<Rightarrow> bool" where
  "isinstance_str (PStr s) = True"
| "isinstance_str v = False"

text \<open>\<^verbatim>\<open>isinstance(value, (str, int, float, bool))\<close>\<close>

fun isinstance_scalar :: "py_value \<Rightarrow> bool" where
  "isinstance_scalar (PStr s) = True"
| "isinstance_scalar (PInt i) = True"
| "isinstance_scalar (PFloat x) = True"
| "isinstance_scalar (PBool b) = True"
| "isinstance_scalar v = False"

text \<open>Truth value testing, as \<^verbatim>\<open>if x:\<close> and \<^verbatim>\<open>x and y\<close> do it.\<close>

fun truthy :: "py_value \<Rightarrow> bool" where
  "truthy PNone = False"
| "truthy (PBool b) = b"
| "truthy (PInt i) = (i \<noteq> 0)"
| "truthy (PFloat (PyFloat r)) = (r \<noteq> ''0.0'' \<and> r \<noteq> ''-0.0'')"
| "truthy (PStr s) = (s \<noteq> [])"
| "truthy (PList xs) = (xs \<noteq> [])"
| "truthy (PDict kvs) = (kvs \<noteq> [])"

text \<open>
  \<^verbatim>\<open>max(items, key=...)\<close> on a non-empty iterable: the first item stays the maximum until
  a later one has a strictly greater key, so the first of several maximal items wins. The
  comparison is a parameter, because a float key may be NaN, which is greater than nothing.
\<close>

fun py_max :: "('k \<Rightarrow> 'k \<Rightarrow> bool) \<Rightarrow> ('a \<Rightarrow> 'k) \<Rightarrow> 'a \<Rightarrow> 'a list \<Rightarrow> 'a" where
  "py_max gt key cur [] = cur"
| "py_max gt key cur (x # xs) = (if gt (key x) (key cur) then py_max gt key x xs else py_max gt key cur xs)"

subsection \<open>Strings\<close>

definition digit_char :: "nat \<Rightarrow> char" where
  "digit_char d =
     (if d = 0 then CHR ''0'' else if d = 1 then CHR ''1'' else if d = 2 then CHR ''2''
      else if d = 3 then CHR ''3'' else if d = 4 then CHR ''4'' else if d = 5 then CHR ''5''
      else if d = 6 then CHR ''6'' else if d = 7 then CHR ''7'' else if d = 8 then CHR ''8''
      else CHR ''9'')"

text \<open>\<^verbatim>\<open>str(n)\<close> for a natural number: its decimal digits.\<close>

function str_nat :: "nat \<Rightarrow> string" where
  "str_nat n = (if n < 10 then [digit_char n] else str_nat (n div 10) @ [digit_char (n mod 10)])"
  by pat_completeness auto
termination
  by (relation "measure (\<lambda>n. n)") auto

definition str_int :: "int \<Rightarrow> string" where
  "str_int i = (if i < 0 then CHR ''-'' # str_nat (nat (- i)) else str_nat (nat i))"

text \<open>\<^verbatim>\<open>str.lower\<close>, on the ASCII letters.\<close>

definition lower_char :: "char \<Rightarrow> char" where
  "lower_char c =
     (case map_of (zip ''ABCDEFGHIJKLMNOPQRSTUVWXYZ'' ''abcdefghijklmnopqrstuvwxyz'') c of
        Some l \<Rightarrow> l
      | None \<Rightarrow> c)"

definition lower :: "string \<Rightarrow> string" where
  "lower s = map lower_char s"

text \<open>
  \<^verbatim>\<open>pathlib.PurePath.suffix\<close> of a file name: with \<open>i\<close> the index of the last dot,
  the name from \<open>i\<close> on when \<open>0 < i < len(name) - 1\<close>, and the empty string otherwise.
\<close>

definition suffix :: "string \<Rightarrow> string" where
  "suffix name =
     (let ext = rev (takeWhile (\<lambda>c. c \<noteq> CHR ''.'') (rev name)) in
      if CHR ''.'' \<in> set name \<and> 0 < length name - length ext - 1 \<and> ext \<noteq> []
      then CHR ''.'' # ext else [])"

section \<open>The data model\<close>

text \<open>A normalized document: \<^verbatim>\<open>{"content": ..., "metadata": {...}}\<close>.\<close>

record document =
  content :: py_value
  metadata :: py_dict

text \<open>
  What an extractor returns: \<^verbatim>\<open>{"success": True, "document": d}\<close>,
  \<^verbatim>\<open>{"success": True, "documents": ds}\<close> or \<^verbatim>\<open>{"success": False, "error": msg}\<close>.
\<close>

datatype ingestion_result =
    Document document
  | Documents "document list"
  | Failure string

text \<open>\<^verbatim>\<open>self.stats\<close> of \<^verbatim>\<open>MedicalDataIngestion\<close>, as \<^verbatim>\<open>__init__\<close> creates it.\<close>

record run_stats =
  files_processed :: nat
  documents_ingested :: nat
  errors :: nat

definition init_stats :: run_stats where
  "init_stats = \<lparr>files_processed = 0, documents_ingested = 0, errors = 0\<rparr>"

subsection \<open>What the libraries read from a file\<close>

text \<open>
  A cell of a \<^verbatim>\<open>DataFrame\<close> as a row of \<^verbatim>\<open>iterrows\<close> holds it. \<open>CNaN\<close> is the missing
  value (\<^verbatim>\<open>pd.isna\<close>), whose \<^verbatim>\<open>str\<close> is \<^verbatim>\<open>nan\<close>.
\<close>

datatype cell = CNaN | CStr string | CInt int | CFloat py_float | CBool bool

fun cell_str :: "cell \<Rightarrow> string" where
  "cell_str CNaN = ''nan''"
| "cell_str (CStr s) = s"
| "cell_str (CInt i) = str_int i"
| "cell_str (CFloat (PyFloat r)) = r"
| "cell_str (CBool b) = (if b then ''True'' else ''False'')"

definition isna :: "cell \<Rightarrow> bool" where
  "isna c = (c = CNaN)"

datatype dtype = ObjectDtype | Int64Dtype | Float64Dtype | BoolDtype

text \<open>
  A \<^verbatim>\<open>DataFrame\<close>: the schema \<^verbatim>\<open>df.columns\<close> with each column's \<^verbatim>\<open>dtype\<close>, the number
  of rows, and the value at a row and a column label. The locator reads whole columns only
  where the \<^verbatim>\<open>dtype\<close> is object, and such a column holds the values its rows hold.
\<close>

record dataframe =
  columns :: "(string \<times> dtype) list"
  nrows :: nat
  cells :: "nat \<Rightarrow> string \<Rightarrow> cell"

text \<open>
  A \<^verbatim>\<open>PdfReader\<close>: what \<^verbatim>\<open>extract_text\<close> gives for each page of \<^verbatim>\<open>reader.pages\<close>, and
  \<^verbatim>\<open>reader.metadata\<close> (which may be \<^verbatim>\<open>None\<close>).
\<close>

record pdf_reader =
  pages :: "(py_exn + string) list"
  pdf_info :: "py_dict option"

text \<open>
  A path as the file system answers for it: its string, its last component, whether it
  exists and is a regular file, and what each library call on it returns or raises.
\<close>

record file_entry =
  fpath :: string
  fname :: string
  fexists :: bool
  fis_file :: bool
  read_text :: "py_exn + string"
  read_csv :: "py_exn + dataframe"
  json_load :: "py_exn + py_value"
  open_pdf :: "py_exn + pdf_reader"

text \<open>A directory path: \<^verbatim>\<open>exists\<close>, \<^verbatim>\<open>is_dir\<close>, \<^verbatim>\<open>iterdir\<close> and \<^verbatim>\<open>glob\<close>.\<close>

record directory =
  dpath :: string
  dexists :: bool
  dis_dir :: bool
  iterdir :: "file_entry list"
  glob :: "string \<Rightarrow> file_entry list"

section \<open>Content locators\<close>

definition content_column_names :: "string list" where
  "content_column_names = [''content'', ''text'', ''description'', ''abstract'', ''body'']"

text \<open>\<^verbatim>\<open>df[col].astype(str).apply(len)\<close>: the string length of every value of a column.\<close>

definition column_lengths :: "dataframe \<Rightarrow> string \<Rightarrow> nat list" where
  "column_lengths df col = map (\<lambda>i. length (cell_str (cells df i col))) [0..<nrows df]"

text \<open>
  \<^verbatim>\<open>Series.mean\<close>: NaN (here \<open>None\<close>) for an empty series, and else the sum over the
  count, taken exactly. The columns of one frame have the same count, so their means are
  ordered as their sums are.
\<close>

definition mean :: "nat list \<Rightarrow> rat option" where
  "mean ns = (if ns = [] then None else Some (of_nat (sum_list ns) / of_nat (length ns)))"

text \<open>\<^verbatim>\<open>a > b\<close> on floats: false as soon as one side is NaN.\<close>

fun float_gt :: "rat option \<Rightarrow> rat option \<Rightarrow> bool" where
  "float_gt (Some a) (Some b) = (a > b)"
| "float_gt a b = False"

text \<open>
  The loop of \<^verbatim>\<open>_identify_content_column\<close> that fills \<^verbatim>\<open>avg_lengths\<close>, over the column
  labels still to visit.
\<close>

fun avg_lengths_loop :: "dataframe \<Rightarrow> string list \<Rightarrow> (string \<times> rat option) list \<Rightarrow> (string \<times> rat option) list" where
  "avg_lengths_loop df [] avg_lengths = avg_lengths"
| "avg_lengths_loop df (col # cols) avg_lengths =
     (if map_of (columns df) col = Some ObjectDtype
      then avg_lengths_loop df cols (AList.update col (mean (column_lengths df col)) avg_lengths)
      else avg_lengths_loop df cols avg_lengths)"

text \<open>\<^verbatim>\<open>_identify_content_column\<close>; \<^verbatim>\<open>df.columns[0]\<close> raises on an empty schema.\<close>

definition identify_content_column :: "dataframe \<Rightarrow> py_exn + string" where
  "identify_content_column df =
     (case find (\<lambda>name. name \<in> set (map fst (columns df))) content_column_names of
        Some name \<Rightarrow> Inr name
      | None \<Rightarrow>
          (case avg_lengths_loop df (map fst (columns df)) [] of
             item # items \<Rightarrow> Inr (fst (py_max float_gt snd item items))
           | [] \<Rightarrow>
               (case map fst (columns df) of
                  [] \<Rightarrow> Inl (IndexError ''index 0 is out of bounds for axis 0 with size 0'')
                | col # cols \<Rightarrow> Inr col)))"

definition content_field_names :: "string list" where
  "content_field_names = [''content'', ''text'', ''description'', ''abstract'', ''body'']"

text \<open>The loop of \<^verbatim>\<open>_identify_json_content_field\<close> that fills \<^verbatim>\<open>text_fields\<close>.\<close>

fun text_fields_loop :: "py_dict \<Rightarrow> (string \<times> nat) list \<Rightarrow> (string \<times> nat) list" where
  "text_fields_loop [] text_fields = text_fields"
| "text_fields_loop ((key, PStr s) # items) text_fields =
     (if length s > 50 then text_fields_loop items (AList.update key (length s) text_fields)
      else text_fields_loop items text_fields)"
| "text_fields_loop ((key, v) # items) text_fields = text_fields_loop items text_fields"

text \<open>\<^verbatim>\<open>_identify_json_content_field\<close>; \<open>None\<close> is Python's \<^verbatim>\<open>None\<close>.\<close>

definition identify_json_content_field :: "py_dict \<Rightarrow> string option" where
  "identify_json_content_field item =
     (case find (\<lambda>name. case map_of item name of Some v \<Rightarrow> isinstance_str v | None \<Rightarrow> False)
             content_field_names of
        Some name \<Rightarrow> Some name
      | None \<Rightarrow>
          (case text_fields_loop item [] of
             entry # entries \<Rightarrow> Some (fst (py_max (\<lambda>a b. a > b) snd entry entries))
           | [] \<Rightarrow> None))"

section \<open>Format extractors\<close>

subsection \<open>Text\<close>

definition ingest_text_file :: "run_stats \<Rightarrow> file_entry \<Rightarrow> ingestion_result \<times> run_stats" where
  "ingest_text_file st f =
     (case read_text f of
        Inl e \<Rightarrow> (Failure (exn_str e), st)
      | Inr text_content \<Rightarrow>
          (Document \<lparr>content = PStr text_content,
                     metadata = [(''source'', PStr (fname f)), (''file_type'', PStr ''txt'')]\<rparr>,
           st\<lparr>documents_ingested := documents_ingested st + 1\<rparr>))"

subsection \<open>CSV\<close>

text \<open>The inner loop of \<^verbatim>\<open>_ingest_csv_file\<close>: the other columns of row \<open>i\<close> as metadata.\<close>

fun csv_metadata_loop :: "dataframe \<Rightarrow> nat \<Rightarrow> string \<Rightarrow> string list \<Rightarrow> py_dict \<Rightarrow> py_dict" where
  "csv_metadata_loop df i text_column [] md = md"
| "csv_metadata_loop df i text_column (col # cols) md =
     (if col \<noteq> text_column \<and> \<not> isna (cells df i col)
      then csv_metadata_loop df i text_column cols (AList.update col (PStr (cell_str (cells df i col))) md)
      else csv_metadata_loop df i text_column cols md)"

definition csv_row_document :: "string \<Rightarrow> dataframe \<Rightarrow> string \<Rightarrow> nat \<Rightarrow> document" where
  "csv_row_document source df text_column i =
     \<lparr>content = PStr (cell_str (cells df i text_column)),
      metadata = csv_metadata_loop df i text_column (map fst (columns df))
                   [(''source'', PStr source), (''file_type'', PStr ''csv'')]\<rparr>"

text \<open>The loop over \<^verbatim>\<open>df.iterrows()\<close>, over the row positions still to visit.\<close>

fun csv_rows_loop :: "string \<Rightarrow> dataframe \<Rightarrow> string \<Rightarrow> nat list \<Rightarrow> document list \<Rightarrow> document list" where
  "csv_rows_loop source df text_column [] documents = documents"
| "csv_rows_loop source df text_column (i # rows) documents =
     csv_rows_loop source df text_column rows (documents @ [csv_row_document source df text_column i])"

definition ingest_csv_file :: "run_stats \<Rightarrow> file_entry \<Rightarrow> ingestion_result \<times> run_stats" where
  "ingest_csv_file st f =
     (case read_csv f of
        Inl e \<Rightarrow> (Failure (exn_str e), st)
      | Inr df \<Rightarrow>
          (case identify_content_column df of
             Inl e \<Rightarrow> (Failure (exn_str e), st)
           | Inr text_column \<Rightarrow>
               (let documents = csv_rows_loop (fname f) df text_column [0..<nrows df] []
                in (Documents documents,
                    st\<lparr>documents_ingested := documents_ingested st + length documents\<rparr>))))"

subsection \<open>JSON\<close>

text \<open>The loop that copies the remaining scalar fields of a record into its metadata.\<close>

fun json_metadata_loop :: "string \<Rightarrow> py_dict \<Rightarrow> py_dict \<Rightarrow> py_dict" where
  "json_metadata_loop content_field [] md = md"
| "json_metadata_loop content_field ((key, v) # items) md =
     (if key \<noteq> content_field \<and> isinstance_scalar v
      then json_metadata_loop content_field items (AList.update key v md)
      else json_metadata_loop content_field items md)"

text \<open>
  What both branches of \<^verbatim>\<open>_ingest_json_file\<close> do with one record object, given the
  metadata they start from: \<open>Inr None\<close> when the object is skipped. \<^verbatim>\<open>if content_field:\<close>
  tests the truth value of the name, and \<^verbatim>\<open>item[content_field]\<close> raises on a missing key.
\<close>

definition json_record :: "py_dict \<Rightarrow> py_dict \<Rightarrow> py_exn + document option" where
  "json_record md0 item =
     (case identify_json_content_field item of
        None \<Rightarrow> Inr None
      | Some content_field \<Rightarrow>
          if content_field = [] then Inr None
          else (case map_of item content_field of
                  None \<Rightarrow> Inl (KeyError content_field)
                | Some v \<Rightarrow>
                    Inr (Some \<lparr>content = v, metadata = json_metadata_loop content_field item md0\<rparr>)))"

text \<open>The body of the loop over a top-level list, for one element.\<close>

definition json_list_item :: "string \<Rightarrow> py_value \<Rightarrow> py_exn + document option" where
  "json_list_item source item =
     (case item of
        PDict obj \<Rightarrow> json_record [(''source'', PStr source), (''file_type'', PStr ''json'')] obj
      | _ \<Rightarrow> Inr None)"

fun json_list_loop :: "string \<Rightarrow> py_value list \<Rightarrow> document list \<Rightarrow> py_exn + document list" where
  "json_list_loop source [] documents = Inr documents"
| "json_list_loop source (item # items) documents =
     (case json_list_item source item of
        Inl e \<Rightarrow> Inl e
      | Inr None \<Rightarrow> json_list_loop source items documents
      | Inr (Some d) \<Rightarrow> json_list_loop source items (documents @ [d]))"

text \<open>
  The body of the loop over the items of a top-level mapping, for one key and its value:
  a string of more than 100 characters, else a nested record, else nothing.
\<close>

definition json_dict_item :: "string \<Rightarrow> string \<Rightarrow> py_value \<Rightarrow> py_exn + document option" where
  "json_dict_item source key v =
     (case v of
        PStr s \<Rightarrow>
          if length s > 100
          then Inr (Some \<lparr>content = PStr s,
                           metadata = [(''source'', PStr source), (''file_type'', PStr ''json''),
                                       (''key'', PStr key)]\<rparr>)
          else Inr None
      | PDict obj \<Rightarrow>
          json_record [(''source'', PStr source), (''file_type'', PStr ''json''),
                       (''document_id'', PStr key)] obj
      | _ \<Rightarrow> Inr None)"

fun json_dict_loop :: "string \<Rightarrow> py_dict \<Rightarrow> document list \<Rightarrow> py_exn + document list" where
  "json_dict_loop source [] documents = Inr documents"
| "json_dict_loop source ((key, v) # items) documents =
     (case json_dict_item source key v of
        Inl e \<Rightarrow> Inl e
      | Inr None \<Rightarrow> json_dict_loop source items documents
      | Inr (Some d) \<Rightarrow> json_dict_loop source items (documents @ [d]))"

definition json_documents :: "string \<Rightarrow> py_value \<Rightarrow> py_exn + document list" where
  "json_documents source data =
     (case data of
        PList items \<Rightarrow> json_list_loop source items []
      | PDict items \<Rightarrow> json_dict_loop source items []
      | _ \<Rightarrow> Inr [])"

definition ingest_json_file :: "run_stats \<Rightarrow> file_entry \<Rightarrow> ingestion_result \<times> run_stats" where
  "ingest_json_file st f =
     (case json_load f of
        Inl e \<Rightarrow> (Failure (exn_str e), st)
      | Inr data \<Rightarrow>
          (case json_documents (fname f) data of
             Inl e \<Rightarrow> (Failure (exn_str e), st)
           | Inr documents \<Rightarrow>
               if documents = [] then (Failure ''No valid documents found'', st)
               else (Documents documents,
                     st\<lparr>documents_ingested := documents_ingested st + length documents\<rparr>)))"

subsection \<open>PDF\<close>

definition page_block :: "nat \<Rightarrow> string \<Rightarrow> string" where
  "page_block page_num page_text =
     ''--- Page '' @ str_nat (page_num + 1) @ '' ---'' @ [CHR 0x0A] @ page_text @ [CHR 0x0A, CHR 0x0A]"

text \<open>The loop over \<^verbatim>\<open>enumerate(reader.pages)\<close>; \<^verbatim>\<open>extract_text\<close> may raise.\<close>

fun pdf_pages_loop :: "nat \<Rightarrow> (py_exn + string) list \<Rightarrow> string \<Rightarrow> py_exn + string" where
  "pdf_pages_loop page_num [] acc = Inr acc"
| "pdf_pages_loop page_num (Inl e # rest) acc = Inl e"
| "pdf_pages_loop page_num (Inr page_text # rest) acc =
     (if page_text \<noteq> [] then pdf_pages_loop (Suc page_num) rest (acc @ page_block page_num page_text)
      else pdf_pages_loop (Suc page_num) rest acc)"

text \<open>\<^verbatim>\<open>key[1:] if key.startswith("/") else key\<close>\<close>

fun clean_key :: "string \<Rightarrow> string" where
  "clean_key [] = []"
| "clean_key (c # cs) = (if c = CHR ''/'' then cs else c # cs)"

text \<open>The loop over \<^verbatim>\<open>reader.metadata.items()\<close>.\<close>

fun pdf_metadata_loop :: "py_dict \<Rightarrow> py_dict \<Rightarrow> py_dict" where
  "pdf_metadata_loop [] md = md"
| "pdf_metadata_loop ((key, v) # items) md =
     (if key \<noteq> [] \<and> truthy v \<and> isinstance_str v
      then pdf_metadata_loop items (AList.update (lower (clean_key key)) v md)
      else pdf_metadata_loop items md)"

definition pdf_metadata :: "string \<Rightarrow> pdf_reader \<Rightarrow> py_dict" where
  "pdf_metadata source reader =
     (let md = [(''source'', PStr source), (''file_type'', PStr ''pdf''),
                (''num_pages'', PInt (int (length (pages reader))))]
      in case pdf_info reader of
           None \<Rightarrow> md
         | Some info \<Rightarrow> if info \<noteq> [] then pdf_metadata_loop info md else md)"

definition ingest_pdf_file :: "run_stats \<Rightarrow> file_entry \<Rightarrow> ingestion_result \<times> run_stats" where
  "ingest_pdf_file st f =
     (case open_pdf f of
        Inl e \<Rightarrow> (Failure (exn_str e), st)
      | Inr reader \<Rightarrow>
          (case pdf_pages_loop 0 (pages reader) [] of
             Inl e \<Rightarrow> (Failure (exn_str e), st)
           | Inr text_content \<Rightarrow>
               (Document \<lparr>content = PStr text_content, metadata = pdf_metadata (fname f) reader\<rparr>,
                st\<lparr>documents_ingested := documents_ingested st + 1\<rparr>)))"

section \<open>Dispatcher and batch ingestor\<close>

text \<open>
  \<^verbatim>\<open>ingest_file\<close>: the outcome is \<open>Inl\<close> when the call raises and \<open>Inr\<close> when it returns,
  next to the accumulator as the call leaves it.
\<close>

definition ingest_file :: "run_stats \<Rightarrow> file_entry \<Rightarrow> (py_exn + ingestion_result) \<times> run_stats" where
  "ingest_file st f =
     (if \<not> fexists f then (Inl (FileNotFoundError (''File not found: '' @ fpath f)), st)
      else if lower (suffix (fname f)) = ''.txt'' then (case ingest_text_file st f of (r, st') \<Rightarrow> (Inr r, st'))
      else if lower (suffix (fname f)) = ''.csv'' then (case ingest_csv_file st f of (r, st') \<Rightarrow> (Inr r, st'))
      else if lower (suffix (fname f)) = ''.json'' then (case ingest_json_file st f of (r, st') \<Rightarrow> (Inr r, st'))
      else if lower (suffix (fname f)) = ''.pdf'' then (case ingest_pdf_file st f of (r, st') \<Rightarrow> (Inr r, st'))
      else (Inr (Failure ''Unsupported file format''), st))"

text \<open>The loop of \<^verbatim>\<open>ingest_directory\<close> over the files, with its inner \<^verbatim>\<open>try\<close>.\<close>

fun ingest_files_loop :: "run_stats \<Rightarrow> file_entry list \<Rightarrow> run_stats" where
  "ingest_files_loop st [] = st"
| "ingest_files_loop st (f # files) =
     (case ingest_file st f of
        (Inr r, st') \<Rightarrow> ingest_files_loop (st'\<lparr>files_processed := files_processed st' + 1\<rparr>) files
      | (Inl e, st') \<Rightarrow> ingest_files_loop (st'\<lparr>errors := errors st' + 1\<rparr>) files)"

text \<open>The files a batch visits: \<^verbatim>\<open>if file_extension:\<close> tests the truth value of the filter.\<close>

definition listed_files :: "directory \<Rightarrow> string option \<Rightarrow> file_entry list" where
  "listed_files d file_extension =
     (case file_extension of
        None \<Rightarrow> filter fis_file (iterdir d)
      | Some ext \<Rightarrow> if ext \<noteq> [] then glob d (''*'' @ ext) else filter fis_file (iterdir d))"

text \<open>The body of the outer \<^verbatim>\<open>try\<close> of \<^verbatim>\<open>ingest_directory\<close>.\<close>

definition ingest_directory_try :: "run_stats \<Rightarrow> directory \<Rightarrow> string option \<Rightarrow> py_exn + run_stats" where
  "ingest_directory_try st d file_extension =
     (if \<not> dexists d \<or> \<not> dis_dir d then Inl (ValueError (''Directory does not exist: '' @ dpath d))
      else Inr (ingest_files_loop st (listed_files d file_extension)))"

text \<open>
  \<^verbatim>\<open>ingest_directory\<close>: \<open>Inl\<close> would be an exception leaving the call. The handler of the
  outer \<^verbatim>\<open>try\<close> catches every \<^verbatim>\<open>Exception\<close>, logs it and returns \<^verbatim>\<open>self.stats\<close>.
\<close>

definition ingest_directory :: "run_stats \<Rightarrow> directory \<Rightarrow> string option \<Rightarrow> py_exn + run_stats" where
  "ingest_directory st d file_extension =
     (case ingest_directory_try st d file_extension of
        Inr st' \<Rightarrow> Inr st'
      | Inl e \<Rightarrow> Inr st)"

text \<open>The documents in the outcome of \<^verbatim>\<open>ingest_file\<close>: none when it raises or fails.\<close>

fun documents_of :: "py_exn + ingestion_result \<Rightarrow> document list" where
  "documents_of (Inr (Document d)) = [d]"
| "documents_of (Inr (Documents ds)) = ds"
| "documents_of (Inr (Failure msg)) = []"
| "documents_of (Inl e) = []"

section \<open>Vocabulary of the statements\<close>

text \<open>The string-valued fields of a record that are longer than 50 characters, in order.\<close>

definition long_text_fields :: "py_dict \<Rightarrow> (string \<times> string) list" where
  "long_text_fields item =
     concat (map (\<lambda>(k, v). case v of PStr s \<Rightarrow> if length s > 50 then [(k, s)] else [] | _ \<Rightarrow> []) item)"

text \<open>
  An item of a top-level mapping from which a document can be derived: a string of more
  than 100 characters, or an object in which the field locator finds a content field.
\<close>

definition derives_document :: "string \<times> py_value \<Rightarrow> bool" where
  "derives_document e =
     (case snd e of
        PStr s \<Rightarrow> length s > 100
      | PDict obj \<Rightarrow> identify_json_content_field obj \<noteq> None
      | _ \<Rightarrow> False)"

text \<open>
  The document of such an item. For a string: the string, tagged with its key. For an
  object: the value of the located content field, a string, with the object's other scalar
  fields as metadata over \<^verbatim>\<open>source\<close>, \<^verbatim>\<open>file_type\<close> and \<^verbatim>\<open>document_id\<close>; in \<open>m ++ n\<close> the
  entries of \<open>n\<close> win.
\<close>

definition mapping_item_document :: "string \<Rightarrow> string \<times> py_value \<Rightarrow> document \<Rightarrow> bool" where
  "mapping_item_document source e d =
     (case snd e of
        PStr s \<Rightarrow>
          d = \<lparr>content = PStr s,
               metadata = [(''source'', PStr source), (''file_type'', PStr ''json''),
                           (''key'', PStr (fst e))]\<rparr>
      | PDict obj \<Rightarrow>
          (\<exists>cf s. identify_json_content_field obj = Some cf \<and> map_of obj cf = Some (PStr s) \<and>
             content d = PStr s \<and>
             map_of (metadata d) =
               map_of [(''source'', PStr source), (''file_type'', PStr ''json''),
                       (''document_id'', PStr (fst e))] ++
               map_of (filter (\<lambda>(k, v). k \<noteq> cf \<and> isinstance_scalar v) obj))
      | _ \<Rightarrow> False)"

text \<open>
  The descriptive properties of a PDF that are copied into the metadata, in order, under
  the keys they are copied to: those with a key and a string value that are not empty.
\<close>

definition document_properties :: "pdf_reader \<Rightarrow> py_dict" where
  "document_properties reader =
     map (\<lambda>(k, v). (lower (clean_key k), v))
       (filter (\<lambda>(k, v). k \<noteq> [] \<and> truthy v \<and> isinstance_str v)
          (case pdf_info reader of None \<Rightarrow> [] | Some info \<Rightarrow> info))"


section \<open>Concrete inputs\<close>

text \<open>A readable text file, a file of no supported format, and a path that is gone.\<close>

definition notes_txt :: file_entry where
  "notes_txt =
     \<lparr>fpath = ''data/notes.txt'', fname = ''notes.txt'', fexists = True, fis_file = True,
      read_text = Inr ''aspirin 100 mg'',
      read_csv = Inl (LibraryError ''Error tokenizing data''),
      json_load = Inl (LibraryError ''Expecting value: line 1 column 1 (char 0)''),
      open_pdf = Inl (LibraryError ''EOF marker not found'')\<rparr>"

definition scan_xyz :: file_entry where
  "scan_xyz = notes_txt\<lparr>fpath := ''data/scan.xyz'', fname := ''scan.xyz''\<rparr>"

definition gone_txt :: file_entry where
  "gone_txt =
     \<lparr>fpath = ''data/gone.txt'', fname = ''gone.txt'', fexists = False, fis_file = False,
      read_text = Inl (LibraryError ''No such file or directory''),
      read_csv = Inl (LibraryError ''No such file or directory''),
      json_load = Inl (LibraryError ''No such file or directory''),
      open_pdf = Inl (LibraryError ''No such file or directory'')\<rparr>"

text \<open>
  A directory holding \<^verbatim>\<open>scan.xyz\<close> and \<^verbatim>\<open>notes.txt\<close>; one where the pattern \<^verbatim>\<open>*.txt\<close>
  also matches a dangling link; a path that does not exist; a path that is a regular file.
\<close>

definition data_dir :: directory where
  "data_dir =
     \<lparr>dpath = ''data'', dexists = True, dis_dir = True, iterdir = [scan_xyz, notes_txt],
      glob = (\<lambda>pattern. if pattern = ''*.txt'' then [notes_txt] else [])\<rparr>"

definition links_dir :: directory where
  "links_dir =
     \<lparr>dpath = ''links'', dexists = True, dis_dir = True, iterdir = [notes_txt, gone_txt],
      glob = (\<lambda>pattern. if pattern = ''*.txt'' then [notes_txt, gone_txt] else [])\<rparr>"

definition missing_dir :: directory where
  "missing_dir =
     \<lparr>dpath = ''nowhere'', dexists = False, dis_dir = False, iterdir = [], glob = (\<lambda>pattern. [])\<rparr>"

definition plain_file_as_dir :: directory where
  "plain_file_as_dir =
     \<lparr>dpath = ''data/notes.txt'', dexists = True, dis_dir = False, iterdir = [],
      glob = (\<lambda>pattern. [])\<rparr>"







text \<open>
  Two JSON files whose payload is a mapping: a long string next to a nested record, and a
  nested record that has a \<^verbatim>\<open>document_id\<close> field of its own.
\<close>

definition mapping_json :: file_entry where
  "mapping_json =
     notes_txt\<lparr>fpath := ''data/mapping.json'', fname := ''mapping.json'',
       json_load := Inr (PDict [(''intro'', PStr (replicate 120 CHR ''a'')),
                                (''meta'', PDict [(''content'', PStr ''hello world''), (''tag'', PStr ''x'')])])\<rparr>"

definition renamed_json :: file_entry where
  "renamed_json =
     notes_txt\<lparr>fpath := ''data/renamed.json'', fname := ''renamed.json'',
       json_load := Inr (PDict [(''meta'', PDict [(''content'', PStr ''hello world''),
                                                  (''document_id'', PStr ''zzz'')])])\<rparr>"

text \<open>
  Two PDF files: one of three pages whose second page has no text, and one of a single page
  whose information block has a property \<^verbatim>\<open>/Num_Pages\<close>.
\<close>

definition leaflet_pdf :: file_entry where
  "leaflet_pdf =
     notes_txt\<lparr>fpath := ''data/leaflet.pdf'', fname := ''leaflet.pdf'',
       open_pdf := Inr \<lparr>pages = [Inr ''Dose'', Inr [], Inr ''Risks''],
                         pdf_info = Some [(''/Author'', PStr ''Lee'')]\<rparr>\<rparr>"

definition counted_pdf :: file_entry where
  "counted_pdf =
     notes_txt\<lparr>fpath := ''data/counted.pdf'', fname := ''counted.pdf'',
       open_pdf := Inr \<lparr>pages = [Inr ''Dose''],
                         pdf_info = Some [(''/Num_Pages'', PStr ''12'')]\<rparr>\<rparr>"

section \<open>Dictionaries and maxima\<close>

text \<open>Assigning to a key that the dictionary does not hold appends the item.\<close>

lemma update_fresh: "k \<notin> fst ` set al \<Longrightarrow> AList.update k v al = al @ [(k, v)]"
  by (induction al) auto

text \<open>
  \<^verbatim>\<open>max\<close> with a key returns the first item whose key is greatest: every item before it has
  a strictly smaller key, and no item after it has a greater one.
\<close>

lemma py_max_first_greatest:
  fixes key :: "'a \<Rightarrow> 'k::linorder"
  shows "\<exists>pre post. cur # xs = pre @ py_max (\<lambda>a b. b < a) key cur xs # post \<and>
           (\<forall>y\<in>set pre. key y < key (py_max (\<lambda>a b. b < a) key cur xs)) \<and>
           (\<forall>y\<in>set post. key y \<le> key (py_max (\<lambda>a b. b < a) key cur xs))"
proof (induction xs arbitrary: cur)
  case Nil
  show ?case by (rule exI [of _ "[]"]) simp
next
  case (Cons x xs)
  let ?gt = "\<lambda>a b :: 'k. b < a"
  show ?case
  proof (cases "key cur < key x")
    case True
    define m where "m = py_max ?gt key x xs"
    have step: "py_max ?gt key cur (x # xs) = m"
      using True by (simp add: m_def)
    from Cons.IH [of x] obtain pre post where
      d: "x # xs = pre @ m # post"
      and lo: "\<forall>y\<in>set pre. key y < key m"
      and hi: "\<forall>y\<in>set post. key y \<le> key m"
      unfolding m_def by blast
    have "key x \<le> key m"
      using d lo by (cases pre) auto
    with True have "key cur < key m" by simp
    with d lo hi have
      "cur # x # xs = (cur # pre) @ m # post \<and> (\<forall>y\<in>set (cur # pre). key y < key m) \<and>
       (\<forall>y\<in>set post. key y \<le> key m)"
      by simp
    then show ?thesis unfolding step by blast
  next
    case False
    define m where "m = py_max ?gt key cur xs"
    have step: "py_max ?gt key cur (x # xs) = m"
      using False by (simp add: m_def)
    from Cons.IH [of cur] obtain pre post where
      d: "cur # xs = pre @ m # post"
      and lo: "\<forall>y\<in>set pre. key y < key m"
      and hi: "\<forall>y\<in>set post. key y \<le> key m"
      unfolding m_def by blast
    show ?thesis
    proof (cases pre)
      case Nil
      with d have "m = cur" and "post = xs" by simp_all
      with hi False have
        "cur # x # xs = [] @ m # (x # xs) \<and> (\<forall>y\<in>set []. key y < key m) \<and>
         (\<forall>y\<in>set (x # xs). key y \<le> key m)"
        by auto
      then show ?thesis unfolding step by blast
    next
      case (Cons c pre')
      with d have c: "c = cur" and xs: "xs = pre' @ m # post" by simp_all
      have "key cur < key m" using lo Cons c by simp
      with False have "key x < key m" by simp
      with xs lo hi Cons c have
        "cur # x # xs = (cur # x # pre') @ m # post \<and> (\<forall>y\<in>set (cur # x # pre'). key y < key m) \<and>
         (\<forall>y\<in>set post. key y \<le> key m)"
        by simp
      then show ?thesis unfolding step by blast
    qed
  qed
qed


section \<open>The accumulator\<close>

text \<open>
  Every extractor returns a result that does not depend on the accumulator, and adds the
  number of documents of that result to \<open>documents_ingested\<close>, touching nothing else.
\<close>

lemma ingest_text_file_effect:
  "ingest_text_file st f =
     (fst (ingest_text_file st0 f),
      st\<lparr>documents_ingested := documents_ingested st + length (documents_of (Inr (fst (ingest_text_file st0 f))))\<rparr>)"
  by (simp add: ingest_text_file_def split: sum.splits)

lemma ingest_csv_file_effect:
  "ingest_csv_file st f =
     (fst (ingest_csv_file st0 f),
      st\<lparr>documents_ingested := documents_ingested st + length (documents_of (Inr (fst (ingest_csv_file st0 f))))\<rparr>)"
  by (simp add: ingest_csv_file_def Let_def split: sum.splits)

lemma ingest_json_file_effect:
  "ingest_json_file st f =
     (fst (ingest_json_file st0 f),
      st\<lparr>documents_ingested := documents_ingested st + length (documents_of (Inr (fst (ingest_json_file st0 f))))\<rparr>)"
  by (simp add: ingest_json_file_def split: sum.splits)

lemma ingest_pdf_file_effect:
  "ingest_pdf_file st f =
     (fst (ingest_pdf_file st0 f),
      st\<lparr>documents_ingested := documents_ingested st + length (documents_of (Inr (fst (ingest_pdf_file st0 f))))\<rparr>)"
  by (simp add: ingest_pdf_file_def split: sum.splits)

lemma ingest_file_effect:
  "ingest_file st f =
     (fst (ingest_file st0 f),
      st\<lparr>documents_ingested := documents_ingested st + length (documents_of (fst (ingest_file st0 f)))\<rparr>)"
proof -
  note e = ingest_text_file_effect [of st f st0] ingest_csv_file_effect [of st f st0]
    ingest_json_file_effect [of st f st0] ingest_pdf_file_effect [of st f st0]
  show ?thesis
    unfolding ingest_file_def [of st] ingest_file_def [of st0]
    using e by (simp split: prod.splits)
qed

lemma ingest_file_raises_iff: "isl (fst (ingest_file st f)) \<longleftrightarrow> \<not> fexists f"
  by (simp add: ingest_file_def split: prod.splits)

text \<open>The tally of the loop over the files of a batch, by induction on the files left.\<close>

lemma ingest_files_loop_stats:
  "ingest_files_loop st files =
     \<lparr>files_processed = files_processed st + length (filter (\<lambda>f. \<not> isl (fst (ingest_file init_stats f))) files),
      documents_ingested = documents_ingested st + sum_list (map (\<lambda>f. length (documents_of (fst (ingest_file init_stats f)))) files),
      errors = errors st + length (filter (\<lambda>f. isl (fst (ingest_file init_stats f))) files)\<rparr>"
proof (induction files arbitrary: st)
  case Nil
  then show ?case by simp
next
  case (Cons f files)
  show ?case
    by (subst ingest_files_loop.simps, subst ingest_file_effect [of st f init_stats])
       (cases "fst (ingest_file init_stats f)"; simp add: Cons.IH)
qed

lemmas fixture_defs =
  notes_txt_def scan_xyz_def gone_txt_def data_dir_def links_dir_def missing_dir_def
  plain_file_as_dir_def init_stats_def

lemmas dispatch_defs = ingest_file_def suffix_def lower_def lower_char_def

section \<open>Batch ingestion\<close>

text \<open>
  Claim C1, as the code has it. \<^verbatim>\<open>ingest_directory\<close> never raises. In a batch over an
  existing directory every listed file is visited: a file for which \<^verbatim>\<open>ingest_file\<close> returns
  (with a success or with a failure result such as \<^verbatim>\<open>Unsupported file format\<close>) adds one to
  \<open>files_processed\<close>, a file for which \<^verbatim>\<open>ingest_file\<close> raises adds one to \<open>errors\<close>, and
  \<open>documents_ingested\<close> grows by the number of documents each file produced.
  \<^verbatim>\<open>ingest_file\<close> raises exactly when the path does not exist.
\<close>

theorem ingest_directory_tally:
  "\<not> isl (ingest_directory st d file_extension) \<and>
   (isl (fst (ingest_file st f)) \<longleftrightarrow> \<not> fexists f) \<and>
   (dexists d \<and> dis_dir d \<longrightarrow>
      ingest_directory st d file_extension =
        Inr \<lparr>files_processed = files_processed st +
                length (filter (\<lambda>f. \<not> isl (fst (ingest_file init_stats f))) (listed_files d file_extension)),
             documents_ingested = documents_ingested st +
                sum_list (map (\<lambda>f. length (documents_of (fst (ingest_file init_stats f)))) (listed_files d file_extension)),
             errors = errors st +
                length (filter (\<lambda>f. isl (fst (ingest_file init_stats f))) (listed_files d file_extension))\<rparr>)"
proof (intro conjI)
  show "\<not> isl (ingest_directory st d file_extension)"
    by (simp add: ingest_directory_def split: sum.splits)
next
  show "isl (fst (ingest_file st f)) \<longleftrightarrow> \<not> fexists f"
    by (rule ingest_file_raises_iff)
next
  show "dexists d \<and> dis_dir d \<longrightarrow>
      ingest_directory st d file_extension =
        Inr \<lparr>files_processed = files_processed st +
                length (filter (\<lambda>f. \<not> isl (fst (ingest_file init_stats f))) (listed_files d file_extension)),
             documents_ingested = documents_ingested st +
                sum_list (map (\<lambda>f. length (documents_of (fst (ingest_file init_stats f)))) (listed_files d file_extension)),
             errors = errors st +
                length (filter (\<lambda>f. isl (fst (ingest_file init_stats f))) (listed_files d file_extension))\<rparr>"
    by (simp add: ingest_directory_def ingest_directory_try_def ingest_files_loop_stats)
qed

text \<open>
  The theorem at the directory where \<^verbatim>\<open>*.txt\<close> matches a text file and a dangling link: one
  file processed, one document, one error.
\<close>

theorem ingest_directory_tally_witness:
  "dexists links_dir \<and> dis_dir links_dir \<and>
   isl (fst (ingest_file init_stats gone_txt)) \<and>
   ingest_directory init_stats links_dir (Some ''.txt'') =
     Inr \<lparr>files_processed = 1, documents_ingested = 1, errors = 1\<rparr>"
  using ingest_directory_tally
          [where st = init_stats and d = links_dir and file_extension = "Some ''.txt''" and f = gone_txt]
  by (simp add: fixture_defs listed_files_def dispatch_defs ingest_text_file_def)

text \<open>
  The batch of the claim, one unsupported file and one valid text file: both files count as
  processed and none as an error, where the claim has one of each.
\<close>

theorem ingest_directory_unsupported_counterexample:
  "ingest_directory init_stats data_dir None =
     Inr \<lparr>files_processed = 2, documents_ingested = 1, errors = 0\<rparr>"
  by (simp add: ingest_directory_def ingest_directory_try_def fixture_defs listed_files_def
      dispatch_defs ingest_text_file_def)

text \<open>
  Claim C2, as the code has it. On a path that does not exist or is not a directory the
  body of \<^verbatim>\<open>ingest_directory\<close> raises \<^verbatim>\<open>ValueError\<close>, its own handler catches it, and the
  call returns the accumulator unchanged. \<^verbatim>\<open>ingest_file\<close> on a path that does not exist
  raises \<^verbatim>\<open>FileNotFoundError\<close>, whatever the file would hold, and leaves the accumulator as
  it was.
\<close>

theorem existence_violations:
  "(\<not> dexists d \<or> \<not> dis_dir d \<longrightarrow>
      ingest_directory_try st d file_extension = Inl (ValueError (''Directory does not exist: '' @ dpath d)) \<and>
      ingest_directory st d file_extension = Inr st) \<and>
   (\<not> fexists f \<longrightarrow>
      ingest_file st f = (Inl (FileNotFoundError (''File not found: '' @ fpath f)), st))"
  by (auto simp add: ingest_directory_def ingest_directory_try_def ingest_file_def)

theorem existence_violations_witness:
  "\<not> dexists missing_dir \<and>
   ingest_directory_try init_stats missing_dir None = Inl (ValueError ''Directory does not exist: nowhere'') \<and>
   ingest_directory init_stats missing_dir None = Inr init_stats \<and>
   \<not> fexists gone_txt \<and>
   ingest_file init_stats gone_txt = (Inl (FileNotFoundError ''File not found: data/gone.txt''), init_stats)"
  using existence_violations [of missing_dir init_stats None gone_txt]
  by (simp add: fixture_defs)

text \<open>
  A path that is a regular file, given as the directory: the call returns the statistics,
  no exception leaves it.
\<close>

theorem ingest_directory_not_fatal_counterexample:
  "ingest_directory \<lparr>files_processed = 3, documents_ingested = 7, errors = 1\<rparr> plain_file_as_dir None =
     Inr \<lparr>files_processed = 3, documents_ingested = 7, errors = 1\<rparr>"
  by (simp add: ingest_directory_def ingest_directory_try_def fixture_defs)

section \<open>Single files\<close>


text \<open>
  Claim C10. \<^verbatim>\<open>ingest_file\<close> and each extractor leave \<open>files_processed\<close> and \<open>errors\<close>
  as they found them: only \<open>documents_ingested\<close> can change.
\<close>

theorem ingest_file_frame:
  "files_processed (snd (ingest_file st f)) = files_processed st \<and>
   errors (snd (ingest_file st f)) = errors st \<and>
   files_processed (snd (ingest_text_file st f)) = files_processed st \<and>
   errors (snd (ingest_text_file st f)) = errors st \<and>
   files_processed (snd (ingest_csv_file st f)) = files_processed st \<and>
   errors (snd (ingest_csv_file st f)) = errors st \<and>
   files_processed (snd (ingest_json_file st f)) = files_processed st \<and>
   errors (snd (ingest_json_file st f)) = errors st \<and>
   files_processed (snd (ingest_pdf_file st f)) = files_processed st \<and>
   errors (snd (ingest_pdf_file st f)) = errors st"
  using ingest_file_effect [of st f init_stats] ingest_text_file_effect [of st f init_stats]
    ingest_csv_file_effect [of st f init_stats] ingest_json_file_effect [of st f init_stats]
    ingest_pdf_file_effect [of st f init_stats]
  by simp

section \<open>The field locator\<close>

text \<open>Over a record with unique keys, the loop collects the long string fields in order.\<close>

lemma text_fields_loop_eq:
  "distinct (map fst item) \<Longrightarrow> fst ` set item \<inter> fst ` set acc = {} \<Longrightarrow>
   text_fields_loop item acc = acc @ map (\<lambda>(k, s). (k, length s)) (long_text_fields item)"
proof (induction item acc rule: text_fields_loop.induct)
  case (1 text_fields)
  show ?case by (simp add: long_text_fields_def)
next
  case (2 key s items text_fields)
  then show ?case
    by (auto simp add: long_text_fields_def update_fresh)
qed (auto simp add: long_text_fields_def)

lemma long_text_fields_keys: "(k, s) \<in> set (long_text_fields item) \<Longrightarrow> (k, PStr s) \<in> set item \<and> length s > 50"
  by (auto simp add: long_text_fields_def split: py_value.splits if_splits)

lemma find_first_index:
  assumes "i < length xs" "P (xs ! i)" "\<forall>j<i. \<not> P (xs ! j)"
  shows "find P xs = Some (xs ! i)"
  using assms by (auto simp add: find_Some_iff)

lemma find_none: "(\<forall>x\<in>set xs. \<not> P x) \<Longrightarrow> find P xs = None"
  by (simp add: find_None_iff)

lemma identify_json_priority:
  assumes "i < length content_field_names"
    and "\<exists>s. map_of item (content_field_names ! i) = Some (PStr s)"
    and "\<forall>j<i. \<not> (\<exists>s. map_of item (content_field_names ! j) = Some (PStr s))"
  shows "identify_json_content_field item = Some (content_field_names ! i)"
proof -
  let ?P = "\<lambda>name. case map_of item name of Some v \<Rightarrow> isinstance_str v | None \<Rightarrow> False"
  have P: "?P n \<longleftrightarrow> (\<exists>s. map_of item n = Some (PStr s))" for n
    by (cases "map_of item n"; cases "the (map_of item n)"; simp)
  have "find ?P content_field_names = Some (content_field_names ! i)"
    by (rule find_first_index) (use assms in \<open>simp_all add: P\<close>)
  then show ?thesis by (simp add: identify_json_content_field_def)
qed

lemma identify_json_no_priority:
  assumes "\<forall>n\<in>set content_field_names. \<not> (\<exists>s. map_of item n = Some (PStr s))"
  shows "identify_json_content_field item =
           (case text_fields_loop item [] of
              entry # entries \<Rightarrow> Some (fst (py_max (\<lambda>a b. b < a) snd entry entries))
            | [] \<Rightarrow> None)"
proof -
  let ?P = "\<lambda>name. case map_of item name of Some v \<Rightarrow> isinstance_str v | None \<Rightarrow> False"
  have P: "?P n \<longleftrightarrow> (\<exists>s. map_of item n = Some (PStr s))" for n
    by (cases "map_of item n"; cases "the (map_of item n)"; simp)
  have "find ?P content_field_names = None"
    by (rule find_none) (use assms in \<open>simp add: P\<close>)
  then show ?thesis by (simp add: identify_json_content_field_def)
qed

lemma identify_json_longest:
  assumes d: "distinct (map fst item)"
    and np: "\<forall>n\<in>set content_field_names. \<not> (\<exists>s. map_of item n = Some (PStr s))"
    and ne: "long_text_fields item \<noteq> []"
  shows "\<exists>pre r s post. long_text_fields item = pre @ (r, s) # post \<and>
           (\<forall>(k, t)\<in>set pre. length t < length s) \<and>
           (\<forall>(k, t)\<in>set post. length t \<le> length s) \<and>
           identify_json_content_field item = Some r"
proof -
  let ?f = "\<lambda>e :: string \<times> string. (fst e, length (snd e))"
  from ne obtain e es where l: "long_text_fields item = e # es"
    by (cases "long_text_fields item") auto
  have tf: "text_fields_loop item [] = ?f e # map ?f es"
    using text_fields_loop_eq [OF d, of "[]"] l by (simp add: case_prod_beta)
  define m where "m = py_max (\<lambda>a b. b < a) snd (?f e) (map ?f es)"
  have res: "identify_json_content_field item = Some (fst m)"
    using identify_json_no_priority [OF np] tf by (simp add: m_def)
  from py_max_first_greatest [of "?f e" "map ?f es" snd] obtain pre post where
    dec: "map ?f (e # es) = pre @ m # post"
    and lo: "\<forall>y\<in>set pre. snd y < snd m"
    and hi: "\<forall>y\<in>set post. snd y \<le> snd m"
    unfolding m_def by auto
  from dec obtain pre' x post' where
    sp: "e # es = pre' @ x # post'" and p: "pre = map ?f pre'" and x: "m = ?f x" and q: "post = map ?f post'"
    unfolding map_eq_append_conv map_eq_Cons_conv append_eq_Cons_conv by blast
  obtain r s where rs: "x = (r, s)" by (cases x)
  have "long_text_fields item = pre' @ (r, s) # post'" using l sp rs by simp
  moreover have "\<forall>(k, t)\<in>set pre'. length t < length s"
    using lo p x rs by auto
  moreover have "\<forall>(k, t)\<in>set post'. length t \<le> length s"
    using hi q x rs by auto
  moreover have "identify_json_content_field item = Some r"
    using res x rs by simp
  ultimately show ?thesis by blast
qed

lemma identify_json_none:
  assumes d: "distinct (map fst item)"
    and np: "\<forall>n\<in>set content_field_names. \<not> (\<exists>s. map_of item n = Some (PStr s))"
    and e: "long_text_fields item = []"
  shows "identify_json_content_field item = None"
  using identify_json_no_priority [OF np] text_fields_loop_eq [OF d, of "[]"] e by simp


text \<open>
  Claim C6. On a record with unique keys the field locator returns the first name of the
  priority list whose value in the record is a string; when there is none, the first of the
  longest among the string fields of more than 50 characters (every earlier such field is
  strictly shorter, no later one is longer); and when there is none of those either it
  returns \<^verbatim>\<open>None\<close>, and then the caller moves on to the next object with the documents it
  had, without raising.
\<close>

theorem identify_json_content_field_spec:
  assumes "distinct (map fst item)"
  shows
    "(\<forall>i<length content_field_names.
        (\<exists>s. map_of item (content_field_names ! i) = Some (PStr s)) \<and>
        (\<forall>j<i. \<not> (\<exists>s. map_of item (content_field_names ! j) = Some (PStr s))) \<longrightarrow>
        identify_json_content_field item = Some (content_field_names ! i)) \<and>
     ((\<forall>n\<in>set content_field_names. \<not> (\<exists>s. map_of item n = Some (PStr s))) \<and>
      long_text_fields item \<noteq> [] \<longrightarrow>
        (\<exists>pre r s post. long_text_fields item = pre @ (r, s) # post \<and>
           (\<forall>(k, t)\<in>set pre. length t < length s) \<and>
           (\<forall>(k, t)\<in>set post. length t \<le> length s) \<and>
           identify_json_content_field item = Some r)) \<and>
     ((\<forall>n\<in>set content_field_names. \<not> (\<exists>s. map_of item n = Some (PStr s))) \<and>
      long_text_fields item = [] \<longrightarrow>
        identify_json_content_field item = None \<and>
        json_record md0 item = Inr None \<and>
        json_list_loop source (PDict item # items) documents = json_list_loop source items documents \<and>
        json_dict_loop source ((key, PDict item) # ditems) documents = json_dict_loop source ditems documents)"
proof (intro conjI allI impI)
  fix i
  assume "i < length content_field_names"
    and "(\<exists>s. map_of item (content_field_names ! i) = Some (PStr s)) \<and>
         (\<forall>j<i. \<not> (\<exists>s. map_of item (content_field_names ! j) = Some (PStr s)))"
  then show "identify_json_content_field item = Some (content_field_names ! i)"
    by (intro identify_json_priority) simp_all
next
  assume "(\<forall>n\<in>set content_field_names. \<not> (\<exists>s. map_of item n = Some (PStr s))) \<and>
          long_text_fields item \<noteq> []"
  then show "\<exists>pre r s post. long_text_fields item = pre @ (r, s) # post \<and>
           (\<forall>(k, t)\<in>set pre. length t < length s) \<and>
           (\<forall>(k, t)\<in>set post. length t \<le> length s) \<and>
           identify_json_content_field item = Some r"
    using identify_json_longest [OF assms] by blast
next
  assume a: "(\<forall>n\<in>set content_field_names. \<not> (\<exists>s. map_of item n = Some (PStr s))) \<and>
          long_text_fields item = []"
  then have none: "identify_json_content_field item = None"
    using identify_json_none [OF assms] by blast
  show "identify_json_content_field item = None" by (rule none)
  show "json_record md0 item = Inr None" by (simp add: json_record_def none)
  show "json_list_loop source (PDict item # items) documents = json_list_loop source items documents"
    by (simp add: json_list_item_def json_record_def none)
  show "json_dict_loop source ((key, PDict item) # ditems) documents = json_dict_loop source ditems documents"
    by (simp add: json_dict_item_def json_record_def none)
qed

text \<open>
  The theorem at \<^verbatim>\<open>{"id": 1, "note": "short"}\<close>, which has no content field and is skipped,
  and at a record whose \<^verbatim>\<open>content\<close> is a number and whose \<^verbatim>\<open>text\<close> is a string.
\<close>

theorem identify_json_content_field_spec_witness:
  "distinct (map fst [(''id'', PInt 1), (''note'', PStr ''short'')]) \<and>
   identify_json_content_field [(''id'', PInt 1), (''note'', PStr ''short'')] = None \<and>
   json_list_loop ''records.json'' [PDict [(''id'', PInt 1), (''note'', PStr ''short'')]] [] = Inr [] \<and>
   distinct (map fst [(''title'', PStr ''Aspirin''), (''text'', PStr ''take one''), (''content'', PInt 3)]) \<and>
   identify_json_content_field [(''title'', PStr ''Aspirin''), (''text'', PStr ''take one''), (''content'', PInt 3)] = Some ''text''"
  using identify_json_content_field_spec
          [of "[(''id'', PInt 1), (''note'', PStr ''short'')]" "[]" "''records.json''" "[]" "[]" "''k''" "[]"]
        identify_json_content_field_spec
          [of "[(''title'', PStr ''Aspirin''), (''text'', PStr ''take one''), (''content'', PInt 3)]",
           THEN conjunct1, rule_format, of 1]
  by (simp add: content_field_names_def long_text_fields_def json_list_item_def)

section \<open>The column locator\<close>












section \<open>CSV files\<close>









section \<open>JSON files\<close>

text \<open>
  The metadata of a record with unique keys: what the loop starts from, overridden by the
  record's scalar fields other than the content field.
\<close>

lemma json_metadata_loop_map_of:
  "distinct (map fst item) \<Longrightarrow>
   map_of (json_metadata_loop content_field item md) =
     map_of md ++ map_of (filter (\<lambda>(k, v). k \<noteq> content_field \<and> isinstance_scalar v) item)"
proof (induction item arbitrary: md)
  case Nil
  show ?case by simp
next
  case (Cons e item)
  obtain key v where e: "e = (key, v)" by (cases e)
  from Cons.prems e have fresh: "key \<notin> fst ` set item" and d: "distinct (map fst item)" by auto
  let ?rest = "filter (\<lambda>(k, v). k \<noteq> content_field \<and> isinstance_scalar v) item"
  have none: "map_of ?rest key = None"
    using fresh by (auto simp add: map_of_eq_None_iff)
  show ?case
  proof (cases "key \<noteq> content_field \<and> isinstance_scalar v")
    case True
    have "json_metadata_loop content_field (e # item) md =
          json_metadata_loop content_field item (AList.update key v md)"
      using True e by simp
    then have "map_of (json_metadata_loop content_field (e # item) md) =
          map_of (AList.update key v md) ++ map_of ?rest"
      by (simp only: Cons.IH [OF d])
    also have "map_of (AList.update key v md) = (map_of md)(key \<mapsto> v)"
      by (rule update_conv')
    also have "(map_of md)(key \<mapsto> v) ++ map_of ?rest = map_of md ++ map_of ((key, v) # ?rest)"
      using none by (auto simp add: fun_eq_iff map_add_def split: option.splits)
    finally have *: "map_of (json_metadata_loop content_field (e # item) md) =
          map_of md ++ map_of ((key, v) # ?rest)" .
    have F: "filter (\<lambda>(k, v). k \<noteq> content_field \<and> isinstance_scalar v) (e # item) = (key, v) # ?rest"
      using True e by simp
    show ?thesis unfolding F by (rule *)
  next
    case False
    then show ?thesis using e Cons.IH [OF d] by auto
  qed
qed


text \<open>A content field that the locator returns holds a string.\<close>

lemma identify_json_sound:
  assumes d: "distinct (map fst item)" and r: "identify_json_content_field item = Some cf"
  shows "\<exists>s. map_of item cf = Some (PStr s)"
proof (cases "\<forall>n\<in>set content_field_names. \<not> (\<exists>s. map_of item n = Some (PStr s))")
  case True
  show ?thesis
  proof (cases "long_text_fields item = []")
    case e: True
    with identify_json_none [OF d True] r show ?thesis by simp
  next
    case False
    from identify_json_longest [OF d True False] r obtain pre s post where
      "long_text_fields item = pre @ (cf, s) # post" by auto
    then have "(cf, s) \<in> set (long_text_fields item)" by simp
    then have "(cf, PStr s) \<in> set item" by (simp add: long_text_fields_keys)
    with d show ?thesis by auto
  qed
next
  case False
  let ?P = "\<lambda>n. \<exists>s. map_of item n = Some (PStr s)"
  from False have ex: "\<exists>i<length content_field_names. ?P (content_field_names ! i)"
    by (metis in_set_conv_nth)
  define i where "i = (LEAST i. i < length content_field_names \<and> ?P (content_field_names ! i))"
  have i: "i < length content_field_names \<and> ?P (content_field_names ! i)"
    unfolding i_def using ex by (rule LeastI_ex)
  have "\<not> (j < length content_field_names \<and> ?P (content_field_names ! j))" if "j < i" for j
    using that unfolding i_def by (rule not_less_Least)
  with i have "\<forall>j<i. \<not> ?P (content_field_names ! j)" by auto
  with identify_json_priority [of i item] i r have "cf = content_field_names ! i" by simp
  with i show ?thesis by simp
qed





text \<open>What one item of a top-level mapping does.\<close>

lemma json_dict_item_skips:
  assumes "\<not> derives_document (key, v)"
  shows "json_dict_item source key v = Inr None"
  using assms
  by (cases v) (simp_all add: json_dict_item_def derives_document_def json_record_def)

lemma json_dict_item_derives:
  assumes dd: "derives_document (key, v)"
    and wf: "\<forall>obj. v = PDict obj \<longrightarrow> distinct (map fst obj) \<and> identify_json_content_field obj \<noteq> Some []"
  shows "\<exists>d. json_dict_item source key v = Inr (Some d) \<and> mapping_item_document source (key, v) d"
proof (cases v)
  case (PStr s)
  with dd show ?thesis
    by (simp add: json_dict_item_def derives_document_def mapping_item_document_def)
next
  case (PDict obj)
  with wf have d: "distinct (map fst obj)" and ne: "identify_json_content_field obj \<noteq> Some []"
    by simp_all
  from dd PDict obtain cf where cf: "identify_json_content_field obj = Some cf"
    by (auto simp add: derives_document_def)
  from identify_json_sound [OF d cf] obtain s where s: "map_of obj cf = Some (PStr s)" by blast
  let ?md0 = "[(''source'', PStr source), (''file_type'', PStr ''json''), (''document_id'', PStr key)]"
  let ?d = "\<lparr>content = PStr s, metadata = json_metadata_loop cf obj ?md0\<rparr>"
  have "json_dict_item source key v = Inr (Some ?d)"
    using PDict cf ne s by (simp add: json_dict_item_def json_record_def)
  moreover have "mapping_item_document source (key, v) ?d"
    unfolding mapping_item_document_def using PDict cf s json_metadata_loop_map_of [OF d, of cf ?md0]
    by simp
  ultimately show ?thesis by blast
qed (use dd in \<open>simp_all add: derives_document_def\<close>)

lemma json_dict_loop_documents:
  assumes "\<forall>(key, v)\<in>set items. \<forall>obj. v = PDict obj \<longrightarrow>
             distinct (map fst obj) \<and> identify_json_content_field obj \<noteq> Some []"
  shows "\<exists>new. json_dict_loop source items acc = Inr (acc @ new) \<and>
           list_all2 (mapping_item_document source) (filter derives_document items) new"
  using assms
proof (induction items arbitrary: acc)
  case Nil
  show ?case by simp
next
  case (Cons e items)
  obtain key v where e: "e = (key, v)" by (cases e)
  from Cons.prems e have wf: "\<forall>obj. v = PDict obj \<longrightarrow>
      distinct (map fst obj) \<and> identify_json_content_field obj \<noteq> Some []"
    and rest: "\<forall>(key, v)\<in>set items. \<forall>obj. v = PDict obj \<longrightarrow>
      distinct (map fst obj) \<and> identify_json_content_field obj \<noteq> Some []"
    by simp_all
  show ?case
  proof (cases "derives_document (key, v)")
    case False
    from Cons.IH [OF rest, of acc] obtain new where
      "json_dict_loop source items acc = Inr (acc @ new)"
      "list_all2 (mapping_item_document source) (filter derives_document items) new"
      by blast
    with False e json_dict_item_skips [OF False, of source] show ?thesis by simp
  next
    case True
    from json_dict_item_derives [OF True wf, of source] obtain d where
      d: "json_dict_item source key v = Inr (Some d)" "mapping_item_document source (key, v) d"
      by blast
    from Cons.IH [OF rest, of "acc @ [d]"] obtain new where
      n: "json_dict_loop source items (acc @ [d]) = Inr ((acc @ [d]) @ new)"
      "list_all2 (mapping_item_document source) (filter derives_document items) new"
      by blast
    have "json_dict_loop source (e # items) acc = Inr (acc @ (d # new))"
      using e d(1) n(1) by simp
    moreover have "list_all2 (mapping_item_document source) (filter derives_document (e # items)) (d # new)"
      using e True d(2) n(2) by simp
    ultimately show ?thesis by blast
  qed
qed

text \<open>
  Claim C5, as the code has it. Take a JSON file whose payload is a mapping, its nested
  objects with unique keys and none of them resolving to a content field with the empty
  name. Then the documents are, in order, those of the items from which a document can be
  derived: for a string of more than 100 characters that string with the metadata
  \<^verbatim>\<open>source\<close>, \<^verbatim>\<open>file_type\<close> and \<^verbatim>\<open>key\<close>; for a nested object the value of its located
  content field, with \<^verbatim>\<open>source\<close>, \<^verbatim>\<open>file_type\<close> and \<^verbatim>\<open>document_id\<close> (the key) as metadata,
  overwritten and extended by the object's other scalar fields. The ingestion fails with
  \<^verbatim>\<open>No valid documents found\<close> exactly when no item derives a document, and otherwise adds
  the number of documents to \<open>documents_ingested\<close>.
\<close>

theorem ingest_json_mapping:
  assumes "fexists f" and "lower (suffix (fname f)) = ''.json''"
    and "json_load f = Inr (PDict items)"
    and "\<forall>(key, v)\<in>set items. \<forall>obj. v = PDict obj \<longrightarrow>
           distinct (map fst obj) \<and> identify_json_content_field obj \<noteq> Some []"
  shows "\<exists>documents.
           list_all2 (mapping_item_document (fname f)) (filter derives_document items) documents \<and>
           ingest_file st f =
             (if documents = [] then (Inr (Failure ''No valid documents found''), st)
              else (Inr (Documents documents),
                    st\<lparr>documents_ingested := documents_ingested st + length documents\<rparr>)) \<and>
           (documents = [] \<longleftrightarrow> (\<forall>e\<in>set items. \<not> derives_document e))"
proof -
  from json_dict_loop_documents [OF assms(4), of "fname f" "[]"] obtain documents where
    loop: "json_dict_loop (fname f) items [] = Inr documents"
    and rel: "list_all2 (mapping_item_document (fname f)) (filter derives_document items) documents"
    by auto
  have run: "ingest_file st f =
      (if documents = [] then (Inr (Failure ''No valid documents found''), st)
       else (Inr (Documents documents),
             st\<lparr>documents_ingested := documents_ingested st + length documents\<rparr>))"
    using assms(1-3) loop by (simp add: ingest_file_def ingest_json_file_def json_documents_def)
  from rel have "length (filter derives_document items) = length documents"
    by (rule list_all2_lengthD)
  then have "documents = [] \<longleftrightarrow> filter derives_document items = []"
    by (metis length_0_conv)
  then have "documents = [] \<longleftrightarrow> (\<forall>e\<in>set items. \<not> derives_document e)"
    by (simp add: filter_empty_conv)
  with rel run show ?thesis by blast
qed

text \<open>The theorem at the mapping with a string of 120 characters and the record \<^verbatim>\<open>meta\<close>.\<close>

theorem ingest_json_mapping_witness:
  "fexists mapping_json \<and> lower (suffix (fname mapping_json)) = ''.json'' \<and>
   json_load mapping_json =
     Inr (PDict [(''intro'', PStr (replicate 120 CHR ''a'')),
                 (''meta'', PDict [(''content'', PStr ''hello world''), (''tag'', PStr ''x'')])]) \<and>
   distinct (map fst [(''content'', PStr ''hello world''), (''tag'', PStr ''x'')]) \<and>
   identify_json_content_field [(''content'', PStr ''hello world''), (''tag'', PStr ''x'')] \<noteq> Some [] \<and>
   (\<exists>documents.
      list_all2 (mapping_item_document ''mapping.json'')
        [(''intro'', PStr (replicate 120 CHR ''a'')),
         (''meta'', PDict [(''content'', PStr ''hello world''), (''tag'', PStr ''x'')])] documents \<and>
      ingest_file init_stats mapping_json =
        (Inr (Documents documents), \<lparr>files_processed = 0, documents_ingested = 2, errors = 0\<rparr>)) \<and>
   ingest_file init_stats mapping_json =
     (Inr (Documents
        [\<lparr>content = PStr (replicate 120 CHR ''a''),
          metadata = [(''source'', PStr ''mapping.json''), (''file_type'', PStr ''json''),
                      (''key'', PStr ''intro'')]\<rparr>,
         \<lparr>content = PStr ''hello world'',
          metadata = [(''source'', PStr ''mapping.json''), (''file_type'', PStr ''json''),
                      (''document_id'', PStr ''meta''), (''tag'', PStr ''x'')]\<rparr>]),
      \<lparr>files_processed = 0, documents_ingested = 2, errors = 0\<rparr>)"
proof -
  let ?items = "[(''intro'', PStr (replicate 120 CHR ''a'')),
                 (''meta'', PDict [(''content'', PStr ''hello world''), (''tag'', PStr ''x'')])]"
  have id: "identify_json_content_field [(''content'', PStr ''hello world''), (''tag'', PStr ''x'')] = Some ''content''"
    by (simp add: identify_json_content_field_def content_field_names_def)
  have h: "fexists mapping_json" "lower (suffix (fname mapping_json)) = ''.json''"
    "json_load mapping_json = Inr (PDict ?items)"
    by (simp_all add: mapping_json_def notes_txt_def suffix_def lower_def lower_char_def)
  have wf: "\<forall>(key, v)\<in>set ?items. \<forall>obj. v = PDict obj \<longrightarrow>
           distinct (map fst obj) \<and> identify_json_content_field obj \<noteq> Some []"
    by (simp add: id)
  have dd: "filter derives_document ?items = ?items"
    by (simp add: derives_document_def id)
  from ingest_json_mapping [OF h wf, of init_stats] obtain documents where
    rel: "list_all2 (mapping_item_document (fname mapping_json)) (filter derives_document ?items) documents"
    and run: "ingest_file init_stats mapping_json =
             (if documents = [] then (Inr (Failure ''No valid documents found''), init_stats)
              else (Inr (Documents documents),
                    init_stats\<lparr>documents_ingested := documents_ingested init_stats + length documents\<rparr>))"
    by blast
  from rel have len: "length documents = 2"
    unfolding dd by (auto dest: list_all2_lengthD)
  then have ne: "documents \<noteq> []" by auto
  have fn: "fname mapping_json = ''mapping.json''" by (simp add: mapping_json_def)
  have a: "\<exists>documents.
      list_all2 (mapping_item_document ''mapping.json'') ?items documents \<and>
      ingest_file init_stats mapping_json =
        (Inr (Documents documents), \<lparr>files_processed = 0, documents_ingested = 2, errors = 0\<rparr>)"
    using rel run len ne unfolding dd fn by (intro exI [of _ documents]) (simp add: init_stats_def)
  have e: "ingest_file init_stats mapping_json =
     (Inr (Documents
        [\<lparr>content = PStr (replicate 120 CHR ''a''),
          metadata = [(''source'', PStr ''mapping.json''), (''file_type'', PStr ''json''),
                      (''key'', PStr ''intro'')]\<rparr>,
         \<lparr>content = PStr ''hello world'',
          metadata = [(''source'', PStr ''mapping.json''), (''file_type'', PStr ''json''),
                      (''document_id'', PStr ''meta''), (''tag'', PStr ''x'')]\<rparr>]),
      \<lparr>files_processed = 0, documents_ingested = 2, errors = 0\<rparr>)"
    by (simp add: mapping_json_def notes_txt_def dispatch_defs ingest_json_file_def json_documents_def
        json_dict_item_def json_record_def id init_stats_def)
  from h id a e show ?thesis by simp
qed

text \<open>
  A nested record with a \<^verbatim>\<open>document_id\<close> field of its own, under the key \<^verbatim>\<open>meta\<close>: the
  \<^verbatim>\<open>document_id\<close> of its document is the field's value, not the key.
\<close>

theorem document_id_counterexample:
  "ingest_file init_stats renamed_json =
     (Inr (Documents
        [\<lparr>content = PStr ''hello world'',
          metadata = [(''source'', PStr ''renamed.json''), (''file_type'', PStr ''json''),
                      (''document_id'', PStr ''zzz'')]\<rparr>]),
      \<lparr>files_processed = 0, documents_ingested = 1, errors = 0\<rparr>)"
  by (simp add: renamed_json_def notes_txt_def dispatch_defs ingest_json_file_def json_documents_def
        json_dict_item_def json_record_def identify_json_content_field_def content_field_names_def
        init_stats_def)

section \<open>PDF files\<close>

text \<open>The loop over pages that all give their text, with \<open>n\<close> pages already visited.\<close>

lemma pdf_pages_loop_texts:
  "pdf_pages_loop n (map Inr texts) acc =
     Inr (acc @ concat (map (\<lambda>(k, t). if t = [] then [] else
                   ''--- Page '' @ str_nat k @ '' ---'' @ [CHR 0x0A] @ t @ [CHR 0x0A, CHR 0x0A])
                 (zip [Suc n..<Suc n + length texts] texts)))"
proof (induction texts arbitrary: n acc)
  case Nil
  show ?case by simp
next
  case (Cons t texts)
  have r: "[Suc n..<Suc n + length (t # texts)] = Suc n # [Suc (Suc n)..<Suc (Suc n) + length texts]"
    using upt_conv_Cons [of "Suc n" "Suc n + length (t # texts)"] by simp
  have z: "zip [Suc n..<Suc n + length (t # texts)] (t # texts) =
           (Suc n, t) # zip [Suc (Suc n)..<Suc (Suc n) + length texts] texts"
    by (simp only: r zip_Cons_Cons)
  show ?case
    unfolding z by (simp add: Cons.IH page_block_def del: str_nat.simps)
qed

text \<open>
  The metadata of a PDF: the three reserved keys, overridden by the copied properties, of
  which a later one overrides an earlier one of the same key.
\<close>

lemma pdf_metadata_loop_map_of:
  "map_of (pdf_metadata_loop info md) =
     map_of md ++ map_of (rev (map (\<lambda>(k, v). (lower (clean_key k), v))
                               (filter (\<lambda>(k, v). k \<noteq> [] \<and> truthy v \<and> isinstance_str v) info)))"
proof (induction info arbitrary: md)
  case Nil
  show ?case by simp
next
  case (Cons e info)
  obtain key v where e: "e = (key, v)" by (cases e)
  show ?case
  proof (cases "key \<noteq> [] \<and> truthy v \<and> isinstance_str v")
    case True
    then have "pdf_metadata_loop (e # info) md = pdf_metadata_loop info (AList.update (lower (clean_key key)) v md)"
      using e by simp
    then show ?thesis
      using True e by (simp add: Cons.IH update_conv' map_add_def fun_eq_iff split: option.splits)
  next
    case False
    then show ?thesis using e Cons.IH by auto
  qed
qed


lemma pdf_metadata_map_of:
  "map_of (pdf_metadata source reader) =
     map_of [(''source'', PStr source), (''file_type'', PStr ''pdf''),
             (''num_pages'', PInt (int (length (pages reader))))] ++
     map_of (rev (document_properties reader))"
  by (cases "pdf_info reader")
     (simp_all add: pdf_metadata_def document_properties_def pdf_metadata_loop_map_of Let_def)


lemma ingest_file_pdf:
  assumes "fexists f" and "lower (suffix (fname f)) = ''.pdf''"
    and "open_pdf f = Inr reader" and "pdf_pages_loop 0 (pages reader) [] = Inr text_content"
  shows "ingest_file st f =
           (Inr (Document \<lparr>content = PStr text_content, metadata = pdf_metadata (fname f) reader\<rparr>),
            st\<lparr>documents_ingested := documents_ingested st + 1\<rparr>)"
  using assms by (simp add: ingest_file_def ingest_pdf_file_def)

text \<open>
  Claim C8, as the code has it. A PDF that opens and whose pages all give their text is
  ingested with success into one document, and \<open>documents_ingested\<close> grows by one. Its
  content is the concatenation, in page order, of one block for each page whose text is not
  empty: the marker \<^verbatim>\<open>--- Page N ---\<close> with \<open>N\<close> counted from 1, a line feed, the text and
  two line feeds. When every page is empty the content is the empty string. The metadata
  has \<^verbatim>\<open>num_pages\<close>: the number of pages, unless the document has a property that is copied
  under the key \<^verbatim>\<open>num_pages\<close>, whose value (of the last such property) then stands there.
\<close>

theorem ingest_pdf_pages:
  assumes "fexists f" and "lower (suffix (fname f)) = ''.pdf''"
    and "open_pdf f = Inr reader" and "pages reader = map Inr texts"
  shows "\<exists>d. ingest_file st f =
             (Inr (Document d), st\<lparr>documents_ingested := documents_ingested st + 1\<rparr>) \<and>
           content d =
             PStr (concat (map (\<lambda>(n, t). if t = [] then [] else
                             ''--- Page '' @ str_nat n @ '' ---'' @ [CHR 0x0A] @ t @ [CHR 0x0A, CHR 0x0A])
                           (zip [1..<Suc (length texts)] texts))) \<and>
           ((\<forall>t\<in>set texts. t = []) \<longrightarrow> content d = PStr []) \<and>
           map_of (metadata d) ''num_pages'' =
             (case map_of (rev (document_properties reader)) ''num_pages'' of
                Some v \<Rightarrow> Some v
              | None \<Rightarrow> Some (PInt (int (length texts))))"
proof -
  let ?block = "\<lambda>(n, t). if t = [] then [] else
                  ''--- Page '' @ str_nat n @ '' ---'' @ [CHR 0x0A] @ t @ [CHR 0x0A, CHR 0x0A]"
  define text_content where "text_content = concat (map ?block (zip [1..<Suc (length texts)] texts))"
  define d where "d = \<lparr>content = PStr text_content, metadata = pdf_metadata (fname f) reader\<rparr>"
  have loop: "pdf_pages_loop 0 (pages reader) [] = Inr text_content"
    using pdf_pages_loop_texts [of 0 texts "[]"] assms(4) by (simp add: text_content_def)
  have run: "ingest_file st f =
      (Inr (Document d), st\<lparr>documents_ingested := documents_ingested st + 1\<rparr>)"
    unfolding d_def by (rule ingest_file_pdf [OF assms(1-3) loop])
  have empty: "text_content = []" if "\<forall>t\<in>set texts. t = []"
  proof -
    have "?block p = []" if "p \<in> set (zip [1..<Suc (length texts)] texts)" for p
    proof -
      obtain n t where p: "p = (n, t)" by (cases p)
      with that have "t \<in> set texts" by (auto dest: set_zip_rightD)
      with \<open>\<forall>t\<in>set texts. t = []\<close> p show ?thesis by simp
    qed
    then show ?thesis by (simp add: text_content_def)
  qed
  have np: "map_of (metadata d) ''num_pages'' =
             (case map_of (rev (document_properties reader)) ''num_pages'' of
                Some v \<Rightarrow> Some v
              | None \<Rightarrow> Some (PInt (int (length texts))))"
    using assms(4) by (simp add: d_def pdf_metadata_map_of map_add_def split: option.splits)
  have "content d = PStr text_content" by (simp add: d_def)
  with run empty np show ?thesis unfolding text_content_def by auto
qed

text \<open>The theorem at the PDF of three pages whose second page has no text.\<close>

theorem ingest_pdf_pages_witness:
  "fexists leaflet_pdf \<and> lower (suffix (fname leaflet_pdf)) = ''.pdf'' \<and>
   open_pdf leaflet_pdf =
     Inr \<lparr>pages = map Inr [''Dose'', [], ''Risks''], pdf_info = Some [(''/Author'', PStr ''Lee'')]\<rparr> \<and>
   (\<exists>d. ingest_file init_stats leaflet_pdf =
           (Inr (Document d), \<lparr>files_processed = 0, documents_ingested = 1, errors = 0\<rparr>) \<and>
        content d = PStr ''--- Page 1 ---\<newline>Dose\<newline>\<newline>--- Page 3 ---\<newline>Risks\<newline>\<newline>'' \<and>
        map_of (metadata d) ''num_pages'' = Some (PInt 3)) \<and>
   ingest_file init_stats leaflet_pdf =
     (Inr (Document
        \<lparr>content = PStr ''--- Page 1 ---\<newline>Dose\<newline>\<newline>--- Page 3 ---\<newline>Risks\<newline>\<newline>'',
          metadata = [(''source'', PStr ''leaflet.pdf''), (''file_type'', PStr ''pdf''),
                      (''num_pages'', PInt 3), (''author'', PStr ''Lee'')]\<rparr>),
      \<lparr>files_processed = 0, documents_ingested = 1, errors = 0\<rparr>)"
proof -
  let ?reader = "\<lparr>pages = map Inr [''Dose'', [], ''Risks''], pdf_info = Some [(''/Author'', PStr ''Lee'')]\<rparr>"
  have h: "fexists leaflet_pdf" "lower (suffix (fname leaflet_pdf)) = ''.pdf''"
    "open_pdf leaflet_pdf = Inr ?reader" "pages ?reader = map Inr [''Dose'', [], ''Risks'']"
    by (simp_all add: leaflet_pdf_def notes_txt_def suffix_def lower_def lower_char_def)
  have u: "[1..<Suc (length [''Dose'', [], ''Risks''])] = [1, 2, 3]"
    by (simp add: upt_rec [of 1] upt_rec [of 2] upt_rec [of 3])
  have p: "map_of (rev (document_properties ?reader)) ''num_pages'' = None"
    by (simp add: document_properties_def lower_def lower_char_def)
  from ingest_pdf_pages [OF h, of init_stats] obtain d where
    "ingest_file init_stats leaflet_pdf =
       (Inr (Document d), init_stats\<lparr>documents_ingested := documents_ingested init_stats + 1\<rparr>)"
    "content d =
       PStr (concat (map (\<lambda>(n, t). if t = [] then [] else
                       ''--- Page '' @ str_nat n @ '' ---'' @ [CHR 0x0A] @ t @ [CHR 0x0A, CHR 0x0A])
                     (zip [1..<Suc (length [''Dose'', [], ''Risks''])] [''Dose'', [], ''Risks''])))"
    "map_of (metadata d) ''num_pages'' =
       (case map_of (rev (document_properties ?reader)) ''num_pages'' of
          Some v \<Rightarrow> Some v
        | None \<Rightarrow> Some (PInt (int (length [''Dose'', [], ''Risks'']))))"
    by blast
  then have a: "\<exists>d. ingest_file init_stats leaflet_pdf =
           (Inr (Document d), \<lparr>files_processed = 0, documents_ingested = 1, errors = 0\<rparr>) \<and>
        content d = PStr ''--- Page 1 ---\<newline>Dose\<newline>\<newline>--- Page 3 ---\<newline>Risks\<newline>\<newline>'' \<and>
        map_of (metadata d) ''num_pages'' = Some (PInt 3)"
    unfolding u p by (intro exI [of _ d]) (simp add: init_stats_def digit_char_def)
  have e: "ingest_file init_stats leaflet_pdf =
     (Inr (Document
        \<lparr>content = PStr ''--- Page 1 ---\<newline>Dose\<newline>\<newline>--- Page 3 ---\<newline>Risks\<newline>\<newline>'',
          metadata = [(''source'', PStr ''leaflet.pdf''), (''file_type'', PStr ''pdf''),
                      (''num_pages'', PInt 3), (''author'', PStr ''Lee'')]\<rparr>),
      \<lparr>files_processed = 0, documents_ingested = 1, errors = 0\<rparr>)"
    by (simp add: leaflet_pdf_def notes_txt_def dispatch_defs ingest_pdf_file_def pdf_metadata_def
        page_block_def digit_char_def init_stats_def)
  from h(1-3) a e show ?thesis by blast
qed

text \<open>
  A PDF of one page with the property \<^verbatim>\<open>/Num_Pages\<close>: \<^verbatim>\<open>num_pages\<close> is that property's
  string, not the page count.
\<close>

theorem num_pages_counterexample:
  "ingest_file init_stats counted_pdf =
     (Inr (Document
        \<lparr>content = PStr ''--- Page 1 ---\<newline>Dose\<newline>\<newline>'',
          metadata = [(''source'', PStr ''counted.pdf''), (''file_type'', PStr ''pdf''),
                      (''num_pages'', PStr ''12'')]\<rparr>),
      \<lparr>files_processed = 0, documents_ingested = 1, errors = 0\<rparr>)"
  by (simp add: counted_pdf_def notes_txt_def dispatch_defs ingest_pdf_file_def pdf_metadata_def
        page_block_def digit_char_def init_stats_def)

section \<open>Metadata keys\<close>












end
